theory Spec2Isabelle
  imports Complex_Main "HOL-Library.Log_Nat" "HOL-Library.Word"
begin

section \<open>Configuration (resample.go, Resampler and NewResampler)\<close>

text \<open>
  The struct \<^verbatim>\<open>Resampler\<close> has three fields of Go type \<^verbatim>\<open>int\<close>. No arithmetic that
  could overflow is done on them, so they are modelled as mathematical integers.
\<close>

record Resampler =
  FromRate :: int
  ToRate :: int
  Channels :: int

text \<open>
  The three \<^verbatim>\<open>fmt.Errorf\<close> results of \<^verbatim>\<open>NewResampler\<close>; each carries the offending
  argument, as the formatted message does.
\<close>

datatype config_error =
  ErrChannels int
  | ErrInputRate int
  | ErrOutputRate int

definition NewResampler :: "int \<Rightarrow> int \<Rightarrow> int \<Rightarrow> config_error + Resampler" where
  "NewResampler channels inputRate outputRate =
     (if channels < 1 then Inl (ErrChannels channels)
      else if inputRate < 1 then Inl (ErrInputRate inputRate)
      else if outputRate < 1 then Inl (ErrOutputRate outputRate)
      else Inr \<lparr>FromRate = inputRate, ToRate = outputRate, Channels = channels\<rparr>)"

section \<open>Binary64 arithmetic\<close>

text \<open>
  Go's \<^verbatim>\<open>float64\<close> is IEEE 754 binary64. A value is a finite number (a rational that has a
  binary64 representation; \<open>Num 0\<close> is positive zero), negative zero, an infinity or a NaN.
  Each arithmetic operation computes the exact rational result and rounds it once, to
  nearest with ties to even, as the hardware does. No two operations are fused.
\<close>

datatype f64 = Num rat | NegZero | PInf | NInf | NaN

definition pow2 :: "int \<Rightarrow> rat" where
  "pow2 e = (if 0 \<le> e then of_int (2 ^ nat e) else 1 / of_int (2 ^ nat (- e)))"

text \<open>Rounding a rational to the nearest integer, ties to even.\<close>

definition rne :: "rat \<Rightarrow> int" where
  "rne q = (let n = \<lfloor>q\<rfloor>; d = q - of_int n
            in if d < 1 / 2 then n else if 1 / 2 < d then n + 1
               else if even n then n else n + 1)"

text \<open>The binary exponent of a positive rational: \<open>2 ^ e \<le> r < 2 ^ (e + 1)\<close>.\<close>

definition ilog2 :: "rat \<Rightarrow> int" where
  "ilog2 r = (let (a, b) = quotient_of r; d = bitlen a - bitlen b
              in if pow2 d \<le> r then d else d - 1)"

text \<open>
  Rounding to binary64: 53 significant bits, exponents from \<open>-1022\<close> (below it the
  spacing stays \<open>2 ^ -1074\<close>, the subnormal numbers) to \<open>1023\<close> (above it the result
  is an infinity). A result that rounds to zero keeps the sign of the exact value.
\<close>

definition f64_round :: "rat \<Rightarrow> f64" where
  "f64_round r =
     (if r = 0 then Num 0
      else let a = \<bar>r\<bar>;
               e = max (ilog2 a) (- 1022);
               q = pow2 (e - 52);
               v = of_int (rne (a / q)) * q
           in if pow2 1024 \<le> v then (if 0 < r then PInf else NInf)
              else if v = 0 then (if 0 < r then Num 0 else NegZero)
              else Num (if 0 < r then v else - v))"

fun f64_val :: "f64 \<Rightarrow> rat" where
  "f64_val (Num r) = r"
| "f64_val _ = 0"

fun f64_sign :: "f64 \<Rightarrow> bool" where
  "f64_sign (Num r) = (r < 0)"
| "f64_sign NegZero = True"
| "f64_sign NInf = True"
| "f64_sign _ = False"

fun f64_is_inf :: "f64 \<Rightarrow> bool" where
  "f64_is_inf PInf = True"
| "f64_is_inf NInf = True"
| "f64_is_inf _ = False"

fun f64_is_zero :: "f64 \<Rightarrow> bool" where
  "f64_is_zero (Num r) = (r = 0)"
| "f64_is_zero NegZero = True"
| "f64_is_zero _ = False"

definition f64_zero :: "bool \<Rightarrow> f64" where
  "f64_zero negative = (if negative then NegZero else Num 0)"

definition f64_inf :: "bool \<Rightarrow> f64" where
  "f64_inf negative = (if negative then NInf else PInf)"

fun f64_neg :: "f64 \<Rightarrow> f64" where
  "f64_neg (Num r) = (if r = 0 then NegZero else Num (- r))"
| "f64_neg NegZero = Num 0"
| "f64_neg PInf = NInf"
| "f64_neg NInf = PInf"
| "f64_neg NaN = NaN"

definition f64_add :: "f64 \<Rightarrow> f64 \<Rightarrow> f64" where
  "f64_add x y =
     (if x = NaN \<or> y = NaN then NaN
      else if f64_is_inf x then (if f64_is_inf y \<and> x \<noteq> y then NaN else x)
      else if f64_is_inf y then y
      else let s = f64_val x + f64_val y
           in if s = 0 then f64_zero (f64_sign x \<and> f64_sign y) else f64_round s)"

definition f64_sub :: "f64 \<Rightarrow> f64 \<Rightarrow> f64" where
  "f64_sub x y = f64_add x (f64_neg y)"

definition f64_mul :: "f64 \<Rightarrow> f64 \<Rightarrow> f64" where
  "f64_mul x y =
     (if x = NaN \<or> y = NaN then NaN
      else if f64_is_inf x \<or> f64_is_inf y then
        (if f64_is_zero x \<or> f64_is_zero y then NaN else f64_inf (f64_sign x \<noteq> f64_sign y))
      else let p = f64_val x * f64_val y
           in if p = 0 then f64_zero (f64_sign x \<noteq> f64_sign y) else f64_round p)"

definition f64_div :: "f64 \<Rightarrow> f64 \<Rightarrow> f64" where
  "f64_div x y =
     (if x = NaN \<or> y = NaN then NaN
      else if f64_is_inf x then
        (if f64_is_inf y then NaN else f64_inf (f64_sign x \<noteq> f64_sign y))
      else if f64_is_inf y then f64_zero (f64_sign x \<noteq> f64_sign y)
      else if f64_is_zero y then
        (if f64_is_zero x then NaN else f64_inf (f64_sign x \<noteq> f64_sign y))
      else if f64_is_zero x then f64_zero (f64_sign x \<noteq> f64_sign y)
      else f64_round (f64_val x / f64_val y))"

text \<open>Comparisons: false as soon as an operand is a NaN; the two zeros are equal.\<close>

definition f64_lt :: "f64 \<Rightarrow> f64 \<Rightarrow> bool" where
  "f64_lt x y =
     (if x = NaN \<or> y = NaN then False
      else if x = PInf \<or> y = NInf then False
      else if x = NInf \<or> y = PInf then True
      else f64_val x < f64_val y)"

definition f64_le :: "f64 \<Rightarrow> f64 \<Rightarrow> bool" where
  "f64_le x y =
     (if x = NaN \<or> y = NaN then False
      else if x = NInf \<or> y = PInf then True
      else if x = PInf \<or> y = NInf then False
      else f64_val x \<le> f64_val y)"

text \<open>The values that are not below zero, and NaN (used for the loop cursor).\<close>

fun f64_nonneg :: "f64 \<Rightarrow> bool" where
  "f64_nonneg (Num r) = (0 \<le> r)"
| "f64_nonneg PInf = True"
| "f64_nonneg NaN = True"
| "f64_nonneg _ = False"

text \<open>\<^verbatim>\<open>float64(n)\<close> for an integer \<open>n\<close>: the nearest binary64 number.\<close>

definition f64_of_int :: "int \<Rightarrow> f64" where
  "f64_of_int n = f64_round (of_int n)"

text \<open>\<^verbatim>\<open>math.Ceil\<close>: exact; a negative argument above \<open>-1\<close> gives negative zero.\<close>

fun f64_ceil :: "f64 \<Rightarrow> f64" where
  "f64_ceil (Num r) =
     (let c = \<lceil>r\<rceil> in if c = 0 then f64_zero (r < 0) else Num (of_int c))"
| "f64_ceil x = x"

text \<open>
  Conversion of a \<^verbatim>\<open>float64\<close> to an integer type discards the fraction. When the
  truncated value does not fit the target type (also for an infinity or a NaN), Go leaves
  the result to the implementation: the model returns \<open>None\<close> there.
\<close>

definition rat_trunc :: "rat \<Rightarrow> int" where
  "rat_trunc r = (if 0 \<le> r then \<lfloor>r\<rfloor> else \<lceil>r\<rceil>)"

definition f64_to_integer :: "int \<Rightarrow> int \<Rightarrow> f64 \<Rightarrow> int option" where
  "f64_to_integer lo hi x =
     (case x of
        Num r \<Rightarrow> (let t = rat_trunc r in if lo \<le> t \<and> t \<le> hi then Some t else None)
      | NegZero \<Rightarrow> Some 0
      | _ \<Rightarrow> None)"

definition f64_to_int :: "f64 \<Rightarrow> int option" where
  "f64_to_int = f64_to_integer (- (2 ^ 63)) (2 ^ 63 - 1)"

definition f64_to_uint64 :: "f64 \<Rightarrow> int option" where
  "f64_to_uint64 = f64_to_integer 0 (2 ^ 64 - 1)"

definition f64_to_int16 :: "f64 \<Rightarrow> 16 word option" where
  "f64_to_int16 x = map_option word_of_int (f64_to_integer (- (2 ^ 15)) (2 ^ 15 - 1) x)"

section \<open>Run-time failures and slices\<close>

text \<open>
  The run-time panics the code can raise, and \<open>Unspecified\<close> for a float-to-integer
  conversion whose result Go leaves to the implementation (not a panic: the model stops
  there because the program's further behaviour depends on the platform).
\<close>

datatype fault = MakeSliceLen | IndexOutOfRange | SliceBounds | DivideByZero | Unspecified

text \<open>
  \<^verbatim>\<open>make([]T, n)\<close> with elements of \<open>elem_size\<close> bytes, on a platform with 64-bit
  \<^verbatim>\<open>int\<close> and addresses: it panics when \<open>n\<close> is negative or the byte size does not fit
  an address. (The run time also panics at its own, lower allocation limit; the model
  keeps only the limit every 64-bit platform has.) The new slice is filled with the zero
  value.
\<close>

definition make_slice :: "int \<Rightarrow> int \<Rightarrow> 'a \<Rightarrow> fault + 'a list" where
  "make_slice elem_size n z =
     (if n < 0 \<or> 2 ^ 64 \<le> elem_size * n then Inl MakeSliceLen
      else Inr (replicate (nat n) z))"

section \<open>Spline evaluator\<close>

fun splineC1 :: "f64 list \<Rightarrow> fault + f64" where
  "splineC1 (y0 # y1 # y2 # y3 # ys) =
     Inr (f64_mul (Num 3) (f64_sub (f64_sub y2 y1) (f64_sub y1 y0)))"
| "splineC1 _ = Inl IndexOutOfRange"

fun splineC2 :: "f64 list \<Rightarrow> fault + f64" where
  "splineC2 (y0 # y1 # y2 # y3 # ys) =
     Inr (f64_mul (Num 3) (f64_sub (f64_sub y3 y2) (f64_sub y2 y1)))"
| "splineC2 _ = Inl IndexOutOfRange"

definition splineM1 :: "f64 \<Rightarrow> f64 \<Rightarrow> f64" where
  "splineM1 c1 c2 =
     f64_div (f64_sub (f64_mul c1 (Num 2)) (f64_div c2 (Num 2))) (Num (15 / 4))"

definition splineM2 :: "f64 \<Rightarrow> f64 \<Rightarrow> f64" where
  "splineM2 c1 c2 =
     f64_div (f64_sub (f64_div c1 (Num 2)) (f64_mul c2 (Num 2))) (Num (- (31 / 4)))"

definition splineZ0 :: "f64 \<Rightarrow> f64 \<Rightarrow> f64 \<Rightarrow> f64 \<Rightarrow> f64 \<Rightarrow> f64 \<Rightarrow> f64 \<Rightarrow> f64" where
  "splineZ0 m1 h0 x0 x1 y0 y1 x =
     (let d0 = f64_sub x x0;
          v1 = f64_div (f64_mul (f64_mul (f64_mul d0 d0) d0) m1) (f64_mul (Num 6) h0);
          v2 = f64_div (f64_mul (f64_mul (Num (- 1)) y0) (f64_sub x x1)) h0;
          v3 = f64_div
                 (f64_mul (f64_sub y1 (f64_div (f64_mul (f64_mul h0 h0) m1) (Num 6))) d0) h0
      in f64_add (f64_add v1 v2) v3)"

definition splineZ1 ::
  "f64 \<Rightarrow> f64 \<Rightarrow> f64 \<Rightarrow> f64 \<Rightarrow> f64 \<Rightarrow> f64 \<Rightarrow> f64 \<Rightarrow> f64 \<Rightarrow> f64" where
  "splineZ1 m1 m2 h1 x1 x2 y1 y2 x =
     (let d1 = f64_sub x x1; d2 = f64_sub x x2;
          v0 = f64_div (f64_mul (f64_mul (f64_mul (f64_mul (Num (- 1)) d2) d2) d2) m1)
                 (f64_mul (Num 6) h1);
          v1 = f64_div (f64_mul (f64_mul (f64_mul d1 d1) d1) m2) (f64_mul (Num 6) h1);
          v2 = f64_div
                 (f64_mul
                    (f64_mul (Num (- 1))
                       (f64_sub y1 (f64_div (f64_mul (f64_mul h1 h1) m1) (Num 6)))) d2) h1;
          v3 = f64_div
                 (f64_mul (f64_sub y2 (f64_div (f64_mul (f64_mul h1 h1) m2) (Num 6))) d1) h1
      in f64_add (f64_add (f64_add v0 v1) v2) v3)"

definition splineZ2 :: "f64 \<Rightarrow> f64 \<Rightarrow> f64 \<Rightarrow> f64 \<Rightarrow> f64 \<Rightarrow> f64 \<Rightarrow> f64 \<Rightarrow> f64" where
  "splineZ2 m2 h2 x2 x3 y2 y3 x =
     (let d3 = f64_sub x x3;
          v0 = f64_div (f64_mul (f64_mul (f64_mul (f64_mul (Num (- 1)) d3) d3) d3) m2)
                 (f64_mul (Num 6) h2);
          v2 = f64_div
                 (f64_mul
                    (f64_mul (Num (- 1))
                       (f64_sub y2 (f64_div (f64_mul (f64_mul h2 h2) m2) (Num 6)))) d3) h2;
          v3 = f64_div (f64_mul y3 (f64_sub x x2)) h2
      in f64_add (f64_add v0 v2) v3)"

text \<open>
  \<^verbatim>\<open>spline\<close> reads \<^verbatim>\<open>yi[0]\<close> to \<^verbatim>\<open>yi[3]\<close> first, which panics on a shorter slice.
\<close>

fun spline :: "f64 \<Rightarrow> f64 list \<Rightarrow> f64 \<Rightarrow> fault + f64" where
  "spline xi (y0 # y1 # y2 # y3 # ys) xo =
     (case splineC1 (y0 # y1 # y2 # y3 # ys) of Inl e \<Rightarrow> Inl e | Inr c1 \<Rightarrow>
      case splineC2 (y0 # y1 # y2 # y3 # ys) of Inl e \<Rightarrow> Inl e | Inr c2 \<Rightarrow>
        (let m1 = splineM1 c1 c2; m2 = splineM2 c1 c2
         in if f64_le xo (f64_add xi (Num 1)) then
              Inr (splineZ0 m1 (Num 1) xi (f64_add xi (Num 1)) y0 y1 xo)
            else if f64_le xo (f64_add xi (Num 2)) then
              Inr (splineZ1 m1 m2 (Num 1) (f64_add xi (Num 1)) (f64_add xi (Num 2)) y1 y2 xo)
            else
              Inr (splineZ2 m2 (Num 1) (f64_add xi (Num 2)) (f64_add xi (Num 3)) y2 y3 xo)))"
| "spline xi _ xo = Inl IndexOutOfRange"

section \<open>Per-channel resampler\<close>

text \<open>
  \<^verbatim>\<open>data[lo:lo+4]\<close>. Go checks the upper bound against the capacity of \<^verbatim>\<open>data\<close>; the
  model checks it against the length, which is at most the capacity, so the model fails
  wherever Go does.
\<close>

definition window :: "f64 list \<Rightarrow> int \<Rightarrow> fault + f64 list" where
  "window data lo =
     (if 0 \<le> lo \<and> lo + 4 \<le> int (length data) then Inr (take 4 (drop (nat lo) data))
      else Inl SliceBounds)"

text \<open>
  The first three statements of the loop body of \<^verbatim>\<open>resampleChannelData\<close>, for the
  cursor \<open>x\<close>: \<^verbatim>\<open>xi0 := float64(uint64(x))\<close>, \<^verbatim>\<open>yi0 := uint64(xi0)\<close> and
  \<^verbatim>\<open>yo := spline(xi0, data[yi0:yi0+4], x)\<close>.
\<close>

definition sample_at :: "f64 list \<Rightarrow> f64 \<Rightarrow> fault + f64" where
  "sample_at data x =
     (case f64_to_uint64 x of None \<Rightarrow> Inl Unspecified | Some u \<Rightarrow>
        (let xi0 = f64_of_int u in
         case f64_to_uint64 xi0 of None \<Rightarrow> Inl Unspecified | Some yi0 \<Rightarrow>
         case window data yi0 of Inl e \<Rightarrow> Inl e | Inr w \<Rightarrow> spline xi0 w x))"

text \<open>
  The loop of \<^verbatim>\<open>resampleChannelData\<close>: \<open>x\<close> is the cursor, \<open>i\<close> the number of samples
  written so far. The store into \<^verbatim>\<open>output[i]\<close> panics once \<open>i\<close> reaches the length of
  \<^verbatim>\<open>output\<close>, so the number of iterations is bounded by that length. After the loop,
  \<^verbatim>\<open>output[:i]\<close> is returned.
\<close>

function resample_loop ::
  "f64 list \<Rightarrow> f64 \<Rightarrow> f64 \<Rightarrow> f64 \<Rightarrow> nat \<Rightarrow> f64 list \<Rightarrow> fault + f64 list" where
  "resample_loop data step avail x i output =
     (if f64_lt x avail then
        (case sample_at data x of Inl e \<Rightarrow> Inl e | Inr yo \<Rightarrow>
           if i < length output then
             resample_loop data step avail (f64_add x step) (Suc i)
               (output[i := f64_div yo (Num 32767)])
           else Inl IndexOutOfRange)
      else if i \<le> length output then Inr (take i output) else Inl SliceBounds)"
  by pat_completeness auto
termination
  by (relation "measure (\<lambda>(data, step, avail, x, i, output). length output - i)") auto

declare resample_loop.simps [simp del]

text \<open>The value of the cursor at the start of iteration \<open>k\<close> (counted from 0).\<close>

fun cursor :: "f64 \<Rightarrow> nat \<Rightarrow> f64" where
  "cursor step 0 = step"
| "cursor step (Suc k) = f64_add (cursor step k) step"

definition channel_step :: "Resampler \<Rightarrow> f64" where
  "channel_step r =
     (let channelFrom = f64_div (f64_of_int (FromRate r)) (f64_of_int (Channels r));
          channelTo = f64_div (f64_of_int (ToRate r)) (f64_of_int (Channels r))
      in f64_div channelFrom channelTo)"

text \<open>The capacity \<^verbatim>\<open>int(math.Ceil(float64(availSamples)/step))\<close> of the output.\<close>

definition output_capacity :: "f64 \<Rightarrow> int \<Rightarrow> int option" where
  "output_capacity step availSamples =
     f64_to_int (f64_ceil (f64_div (f64_of_int availSamples) step))"

definition resampleChannelData :: "Resampler \<Rightarrow> f64 list \<Rightarrow> fault + f64 list" where
  "resampleChannelData r data =
     (if length data \<le> 16 then make_slice 8 (int (length data)) (Num 0)
      else let availSamples = int (length data) - 16;
               step = channel_step r
           in case output_capacity step availSamples of
                None \<Rightarrow> Inl Unspecified
              | Some n \<Rightarrow>
                  (case make_slice 8 n (Num 0) of Inl e \<Rightarrow> Inl e | Inr output \<Rightarrow>
                     resample_loop data step (f64_of_int availSamples) step 0 output))"

section \<open>Buffer adapter\<close>

text \<open>
  The de-interleaving loop: sample \<open>i\<close> is appended to channel \<open>i % Channels\<close>. The
  remainder panics on a zero divisor; indices are never negative here, so Go's truncated
  remainder and quotient are \<open>mod\<close> and \<open>div\<close>.
\<close>

fun split_channels :: "int \<Rightarrow> nat \<Rightarrow> f64 list \<Rightarrow> f64 list list \<Rightarrow> fault + f64 list list" where
  "split_channels nch i [] channels = Inr channels"
| "split_channels nch i (d # ds) channels =
     (if nch = 0 then Inl DivideByZero
      else let channelIdx = int i mod nch
           in if 0 \<le> channelIdx \<and> channelIdx < int (length channels) then
                split_channels nch (Suc i) ds
                  (channels[nat channelIdx := channels ! nat channelIdx @ [d]])
              else Inl IndexOutOfRange)"

fun resample_channels :: "Resampler \<Rightarrow> f64 list list \<Rightarrow> fault + f64 list list" where
  "resample_channels r [] = Inr []"
| "resample_channels r (c # cs) =
     (case resampleChannelData r c of Inl e \<Rightarrow> Inl e | Inr out \<Rightarrow>
      case resample_channels r cs of Inl e \<Rightarrow> Inl e | Inr outs \<Rightarrow> Inr (out # outs))"

function interleave :: "int \<Rightarrow> f64 list list \<Rightarrow> nat \<Rightarrow> f64 list \<Rightarrow> fault + f64 list" where
  "interleave nch resampledData i resampled =
     (if i < length resampled then
        (if nch = 0 \<or> length resampledData = 0 then Inl DivideByZero
         else let dataIdx = int i div nch;
                  c = i mod length resampledData;
                  dataLen = int (length (resampledData ! c))
              in if dataLen = 0 then interleave nch resampledData (Suc i) resampled
                 else let dataIdx1 = (if dataIdx > dataLen - 1 then dataLen - 1 else dataIdx);
                          dataIdx2 = (if dataIdx1 < 0 then 0 else dataIdx1)
                      in if 0 \<le> dataIdx2 \<and> dataIdx2 < dataLen then
                           interleave nch resampledData (Suc i)
                             (resampled[i := resampledData ! c ! nat dataIdx2])
                         else Inl IndexOutOfRange)
      else Inr resampled)"
  by pat_completeness auto
termination
  by (relation "measure (\<lambda>(nch, resampledData, i, resampled). length resampled - i)") auto

declare interleave.simps [simp del]

definition target_length :: "Resampler \<Rightarrow> nat \<Rightarrow> int option" where
  "target_length r n =
     f64_to_int (f64_mul (f64_div (f64_of_int (int n)) (f64_of_int (FromRate r)))
                   (f64_of_int (ToRate r)))"

definition ResampleFloat64 :: "Resampler \<Rightarrow> f64 list \<Rightarrow> fault + f64 list" where
  "ResampleFloat64 r data =
     (if length data = 0 then Inr []
      else if FromRate r = ToRate r then Inr data
      else case make_slice 24 (Channels r) [] of Inl e \<Rightarrow> Inl e | Inr channels0 \<Rightarrow>
           case split_channels (Channels r) 0 data channels0 of Inl e \<Rightarrow> Inl e | Inr channels \<Rightarrow>
           case target_length r (length data) of None \<Rightarrow> Inl Unspecified | Some n \<Rightarrow>
           case make_slice 8 n (Num 0) of Inl e \<Rightarrow> Inl e | Inr resampled \<Rightarrow>
           case resample_channels r channels of Inl e \<Rightarrow> Inl e | Inr resampledData \<Rightarrow>
             interleave (Channels r) resampledData 0 resampled)"

section \<open>16-bit adapter\<close>

fun to_int16s :: "f64 list \<Rightarrow> fault + 16 word list" where
  "to_int16s [] = Inr []"
| "to_int16s (x # xs) =
     (case f64_to_int16 (f64_mul x (Num 32767)) of None \<Rightarrow> Inl Unspecified | Some w \<Rightarrow>
      case to_int16s xs of Inl e \<Rightarrow> Inl e | Inr ws \<Rightarrow> Inr (w # ws))"

definition ResampleInt16 :: "Resampler \<Rightarrow> 16 word list \<Rightarrow> fault + 16 word list" where
  "ResampleInt16 r data =
     (let f64data = map (\<lambda>d. f64_div (f64_of_int (sint d)) (Num 32767)) data
      in case ResampleFloat64 r f64data of Inl e \<Rightarrow> Inl e | Inr resampledf64 \<Rightarrow>
           to_int16s resampledf64)"

section \<open>The entry points on an explicit store\<close>

text \<open>
  To state what the entry points write, the same code is modelled a second time with the
  memory made explicit. The store holds the backing arrays of the \<^verbatim>\<open>[]float64\<close> and
  \<^verbatim>\<open>[]int16\<close> slices by address, the next free address, and the \<^verbatim>\<open>Resampler\<close> struct the
  receiver points to. A slice is \<^verbatim>\<open>nil\<close> or an address with a length; \<^verbatim>\<open>data[:]\<close> is the
  slice itself and \<^verbatim>\<open>output[:i]\<close> the same address with length \<open>i\<close>. The slice of
  slice headers \<^verbatim>\<open>channels\<close> and \<^verbatim>\<open>resampledData\<close> are local to a call and are lists of
  slices. Every assignment to an element is a \<open>put\<close> into the store, every \<^verbatim>\<open>make\<close> takes
  a fresh address, and \<^verbatim>\<open>append\<close> writes behind the last element of the array of its
  argument (Go writes there when the capacity allows it and moves the elements to a fresh
  array otherwise; writing in place is the case that could touch memory shared with
  another slice).
\<close>

type_synonym addr = nat

datatype slice = NilSlice | Slice addr nat

record store =
  mem :: "addr \<Rightarrow> f64 list"
  mem16 :: "addr \<Rightarrow> 16 word list"
  brk :: addr
  conf :: Resampler

fun slice_len :: "slice \<Rightarrow> nat" where
  "slice_len NilSlice = 0"
| "slice_len (Slice a n) = n"

fun contents :: "store \<Rightarrow> slice \<Rightarrow> f64 list" where
  "contents s NilSlice = []"
| "contents s (Slice a n) = take n (mem s a)"

fun contents16 :: "store \<Rightarrow> slice \<Rightarrow> 16 word list" where
  "contents16 s NilSlice = []"
| "contents16 s (Slice a n) = take n (mem16 s a)"

definition alloc :: "int \<Rightarrow> store \<Rightarrow> fault + slice \<times> store" where
  "alloc n s =
     (case make_slice 8 n (Num 0) of Inl e \<Rightarrow> Inl e
      | Inr xs \<Rightarrow>
          Inr (Slice (brk s) (nat n), s\<lparr>mem := (mem s)(brk s := xs), brk := Suc (brk s)\<rparr>))"

definition alloc16 :: "int \<Rightarrow> store \<Rightarrow> fault + slice \<times> store" where
  "alloc16 n s =
     (case make_slice 2 n 0 of Inl e \<Rightarrow> Inl e
      | Inr xs \<Rightarrow>
          Inr (Slice (brk s) (nat n), s\<lparr>mem16 := (mem16 s)(brk s := xs), brk := Suc (brk s)\<rparr>))"

fun put :: "slice \<Rightarrow> nat \<Rightarrow> f64 \<Rightarrow> store \<Rightarrow> fault + store" where
  "put NilSlice i v s = Inl IndexOutOfRange"
| "put (Slice a n) i v s =
     (if i < n then Inr (s\<lparr>mem := (mem s)(a := (mem s a)[i := v])\<rparr>)
      else Inl IndexOutOfRange)"

fun put16 :: "slice \<Rightarrow> nat \<Rightarrow> 16 word \<Rightarrow> store \<Rightarrow> fault + store" where
  "put16 NilSlice i v s = Inl IndexOutOfRange"
| "put16 (Slice a n) i v s =
     (if i < n then Inr (s\<lparr>mem16 := (mem16 s)(a := (mem16 s a)[i := v])\<rparr>)
      else Inl IndexOutOfRange)"

fun append_st :: "slice \<Rightarrow> f64 \<Rightarrow> store \<Rightarrow> slice \<times> store" where
  "append_st NilSlice v s =
     (Slice (brk s) 1, s\<lparr>mem := (mem s)(brk s := [v]), brk := Suc (brk s)\<rparr>)"
| "append_st (Slice a n) v s =
     (Slice a (Suc n), s\<lparr>mem := (mem s)(a := take n (mem s a) @ [v])\<rparr>)"

function split_st ::
  "slice \<Rightarrow> nat \<Rightarrow> slice list \<Rightarrow> store \<Rightarrow> fault + slice list \<times> store" where
  "split_st d i channels s =
     (if i < slice_len d then
        (if Channels (conf s) = 0 then Inl DivideByZero
         else let channelIdx = int i mod Channels (conf s)
              in if 0 \<le> channelIdx \<and> channelIdx < int (length channels) then
                   (case append_st (channels ! nat channelIdx) (contents s d ! i) s of
                      (sl, s') \<Rightarrow> split_st d (Suc i) (channels[nat channelIdx := sl]) s')
                 else Inl IndexOutOfRange)
      else Inr (channels, s))"
  by pat_completeness auto
termination
  by (relation "measure (\<lambda>(d, i, channels, s). slice_len d - i)") auto

declare split_st.simps [simp del]

lemma put_Inr_less: "put sl i v s = Inr s' \<Longrightarrow> i < slice_len sl"
  by (cases sl) (auto split: if_splits)

lemma put16_Inr_less: "put16 sl i v s = Inr s' \<Longrightarrow> i < slice_len sl"
  by (cases sl) (auto split: if_splits)

function resample_loop_st ::
  "slice \<Rightarrow> f64 \<Rightarrow> f64 \<Rightarrow> f64 \<Rightarrow> nat \<Rightarrow> slice \<Rightarrow> store \<Rightarrow> fault + slice \<times> store" where
  "resample_loop_st d step avail x i out s =
     (if f64_lt x avail then
        (case sample_at (contents s d) x of Inl e \<Rightarrow> Inl e | Inr yo \<Rightarrow>
           (case put out i (f64_div yo (Num 32767)) s of Inl e \<Rightarrow> Inl e
            | Inr s' \<Rightarrow> resample_loop_st d step avail (f64_add x step) (Suc i) out s'))
      else (case out of
              Slice a n \<Rightarrow> if i \<le> n then Inr (Slice a i, s) else Inl SliceBounds
            | NilSlice \<Rightarrow> if i = 0 then Inr (NilSlice, s) else Inl SliceBounds))"
  by pat_completeness auto
termination
  by (relation "measure (\<lambda>(d, step, avail, x, i, out, s). slice_len out - i)")
     (auto dest: put_Inr_less)

declare resample_loop_st.simps [simp del]

definition resampleChannelData_st :: "slice \<Rightarrow> store \<Rightarrow> fault + slice \<times> store" where
  "resampleChannelData_st d s =
     (if slice_len d \<le> 16 then alloc (int (slice_len d)) s
      else let availSamples = int (slice_len d) - 16;
               step = channel_step (conf s)
           in case output_capacity step availSamples of
                None \<Rightarrow> Inl Unspecified
              | Some n \<Rightarrow>
                  (case alloc n s of Inl e \<Rightarrow> Inl e
                   | Inr (out, s') \<Rightarrow>
                       resample_loop_st d step (f64_of_int availSamples) step 0 out s'))"

fun resample_channels_st :: "slice list \<Rightarrow> store \<Rightarrow> fault + slice list \<times> store" where
  "resample_channels_st [] s = Inr ([], s)"
| "resample_channels_st (c # cs) s =
     (case resampleChannelData_st c s of Inl e \<Rightarrow> Inl e | Inr (out, s') \<Rightarrow>
      case resample_channels_st cs s' of Inl e \<Rightarrow> Inl e
      | Inr (outs, s'') \<Rightarrow> Inr (out # outs, s''))"

function interleave_st :: "slice list \<Rightarrow> nat \<Rightarrow> slice \<Rightarrow> store \<Rightarrow> fault + store" where
  "interleave_st resampledData i resampled s =
     (if i < slice_len resampled then
        (if Channels (conf s) = 0 \<or> length resampledData = 0 then Inl DivideByZero
         else let dataIdx = int i div Channels (conf s);
                  c = i mod length resampledData;
                  dataLen = int (slice_len (resampledData ! c))
              in if dataLen = 0 then interleave_st resampledData (Suc i) resampled s
                 else let dataIdx1 = (if dataIdx > dataLen - 1 then dataLen - 1 else dataIdx);
                          dataIdx2 = (if dataIdx1 < 0 then 0 else dataIdx1)
                      in if 0 \<le> dataIdx2 \<and> dataIdx2 < dataLen then
                           (case put resampled i
                                   (contents s (resampledData ! c) ! nat dataIdx2) s of
                              Inl e \<Rightarrow> Inl e
                            | Inr s' \<Rightarrow> interleave_st resampledData (Suc i) resampled s')
                         else Inl IndexOutOfRange)
      else Inr s)"
  by pat_completeness auto
termination
  by (relation "measure (\<lambda>(resampledData, i, resampled, s). slice_len resampled - i)") auto

declare interleave_st.simps [simp del]

definition ResampleFloat64_st :: "slice \<Rightarrow> store \<Rightarrow> fault + slice \<times> store" where
  "ResampleFloat64_st d s =
     (if slice_len d = 0 then Inr (NilSlice, s)
      else if FromRate (conf s) = ToRate (conf s) then Inr (d, s)
      else case make_slice 24 (Channels (conf s)) NilSlice of Inl e \<Rightarrow> Inl e
         | Inr channels0 \<Rightarrow>
      case split_st d 0 channels0 s of Inl e \<Rightarrow> Inl e | Inr (channels, s1) \<Rightarrow>
      case target_length (conf s1) (slice_len d) of None \<Rightarrow> Inl Unspecified | Some n \<Rightarrow>
      case alloc n s1 of Inl e \<Rightarrow> Inl e | Inr (resampled, s2) \<Rightarrow>
      case resample_channels_st channels s2 of Inl e \<Rightarrow> Inl e | Inr (resampledData, s3) \<Rightarrow>
      case interleave_st resampledData 0 resampled s3 of Inl e \<Rightarrow> Inl e
         | Inr s4 \<Rightarrow> Inr (resampled, s4))"

function to_f64_st :: "slice \<Rightarrow> nat \<Rightarrow> slice \<Rightarrow> store \<Rightarrow> fault + store" where
  "to_f64_st d i f64data s =
     (if i < slice_len d then
        (case put f64data i
                (f64_div (f64_of_int (sint (contents16 s d ! i))) (Num 32767)) s of
           Inl e \<Rightarrow> Inl e
         | Inr s' \<Rightarrow> to_f64_st d (Suc i) f64data s')
      else Inr s)"
  by pat_completeness auto
termination
  by (relation "measure (\<lambda>(d, i, f64data, s). slice_len d - i)") auto

declare to_f64_st.simps [simp del]

function to_i16_st :: "slice \<Rightarrow> nat \<Rightarrow> slice \<Rightarrow> store \<Rightarrow> fault + store" where
  "to_i16_st resampledf64 i resampledi16 s =
     (if i < slice_len resampledf64 then
        (case f64_to_int16 (f64_mul (contents s resampledf64 ! i) (Num 32767)) of
           None \<Rightarrow> Inl Unspecified
         | Some w \<Rightarrow>
             (case put16 resampledi16 i w s of Inl e \<Rightarrow> Inl e
              | Inr s' \<Rightarrow> to_i16_st resampledf64 (Suc i) resampledi16 s'))
      else Inr s)"
  by pat_completeness auto
termination
  by (relation "measure (\<lambda>(resampledf64, i, resampledi16, s). slice_len resampledf64 - i)") auto

declare to_i16_st.simps [simp del]

definition ResampleInt16_st :: "slice \<Rightarrow> store \<Rightarrow> fault + slice \<times> store" where
  "ResampleInt16_st d s =
     (case alloc (int (slice_len d)) s of Inl e \<Rightarrow> Inl e | Inr (f64data, s1) \<Rightarrow>
      case to_f64_st d 0 f64data s1 of Inl e \<Rightarrow> Inl e | Inr s2 \<Rightarrow>
      case ResampleFloat64_st f64data s2 of Inl e \<Rightarrow> Inl e | Inr (resampledf64, s3) \<Rightarrow>
      case alloc16 (int (slice_len resampledf64)) s3 of Inl e \<Rightarrow> Inl e
         | Inr (resampledi16, s4) \<Rightarrow>
      case to_i16_st resampledf64 0 resampledi16 s4 of Inl e \<Rightarrow> Inl e
         | Inr s5 \<Rightarrow> Inr (resampledi16, s5))"

text \<open>A store with one \<^verbatim>\<open>[]float64\<close> array and one \<^verbatim>\<open>[]int16\<close> array, for examples.\<close>

definition example_store :: store where
  "example_store =
     \<lparr>mem = (\<lambda>a. [])(0 := [Num 1]),
      mem16 = (\<lambda>a. [])(1 := [16384]),
      brk = 2,
      conf = \<lparr>FromRate = 1, ToRate = 2, Channels = 1\<rparr>\<rparr>"

text \<open>
  \<open>keeps b s s'\<close>: the arrays at the addresses below \<open>b\<close> and the configuration are the
  same in \<open>s'\<close> as in \<open>s\<close>. \<open>fresh b sl\<close>: the slice does not point below \<open>b\<close>.
\<close>

definition keeps :: "addr \<Rightarrow> store \<Rightarrow> store \<Rightarrow> bool" where
  "keeps b s s' \<longleftrightarrow>
     (\<forall>a<b. mem s' a = mem s a \<and> mem16 s' a = mem16 s a) \<and> conf s' = conf s \<and> brk s \<le> brk s'"

fun fresh :: "addr \<Rightarrow> slice \<Rightarrow> bool" where
  "fresh b NilSlice = True"
| "fresh b (Slice a n) = (b \<le> a)"

section \<open>Construction\<close>

text \<open>
  C7. Construction fails with the channel-count error exactly when the channel count is
  below 1, with the source-rate error exactly when the channel count is at least 1 and the
  source rate is below 1, and with the target-rate error exactly when the first two are at
  least 1 and the target rate is below 1. When all three are at least 1 it returns a
  configuration whose fields are the three arguments.
\<close>

theorem NewResampler_checks:
  "((\<exists>e. NewResampler c f t = Inl (ErrChannels e)) \<longleftrightarrow> c < 1) \<and>
   ((\<exists>e. NewResampler c f t = Inl (ErrInputRate e)) \<longleftrightarrow> 1 \<le> c \<and> f < 1) \<and>
   ((\<exists>e. NewResampler c f t = Inl (ErrOutputRate e)) \<longleftrightarrow> 1 \<le> c \<and> 1 \<le> f \<and> t < 1) \<and>
   ((\<exists>r. NewResampler c f t = Inr r) \<longleftrightarrow> 1 \<le> c \<and> 1 \<le> f \<and> 1 \<le> t) \<and>
   (\<forall>r. NewResampler c f t = Inr r \<longrightarrow>
        Channels r = c \<and> FromRate r = f \<and> ToRate r = t)"
  by (auto simp: NewResampler_def)

theorem NewResampler_checks_witness:
  "NewResampler 2 44100 48000 = Inr \<lparr>FromRate = 44100, ToRate = 48000, Channels = 2\<rparr> \<and>
   Channels \<lparr>FromRate = 44100, ToRate = 48000, Channels = 2\<rparr> = 2 \<and>
   FromRate \<lparr>FromRate = 44100, ToRate = 48000, Channels = 2\<rparr> = 44100 \<and>
   ToRate \<lparr>FromRate = 44100, ToRate = 48000, Channels = 2\<rparr> = 48000"
  using NewResampler_checks [of 2 44100 48000]
  by (simp add: NewResampler_def)

section \<open>Identity rates\<close>

text \<open>
  C8. When the source rate equals the target rate, \<^verbatim>\<open>ResampleFloat64\<close> returns a buffer
  with the contents of the input (the same samples in the same order), whatever the
  input is, and resamples nothing.
\<close>

theorem ResampleFloat64_identity:
  "FromRate r = ToRate r \<Longrightarrow> ResampleFloat64 r data = Inr data"
  by (simp add: ResampleFloat64_def)

theorem ResampleFloat64_identity_witness:
  "FromRate \<lparr>FromRate = 44100, ToRate = 44100, Channels = 2\<rparr>
     = ToRate \<lparr>FromRate = 44100, ToRate = 44100, Channels = 2\<rparr> \<and>
   ResampleFloat64 \<lparr>FromRate = 44100, ToRate = 44100, Channels = 2\<rparr>
     [Num 1, Num (- (1 / 2)), NaN] = Inr [Num 1, Num (- (1 / 2)), NaN]"
  using ResampleFloat64_identity
    [of "\<lparr>FromRate = 44100, ToRate = 44100, Channels = 2\<rparr>" "[Num 1, Num (- (1 / 2)), NaN]"]
  by simp

section \<open>Channels of at most 16 samples\<close>

text \<open>
  C2. A channel of at most 16 samples, whatever its values and the rates, is answered by a
  sequence of the same length in which every sample is zero. The boundary is exact: 16
  samples take this path (16 ones give 16 zeros), 17 samples do not (17 ones at rates 1:1
  give the empty sequence, which the zero fill never returns for a non-empty input).
\<close>

theorem resampleChannelData_short:
  "(length data \<le> 16 \<longrightarrow>
      resampleChannelData r data = Inr (replicate (length data) (Num 0))) \<and>
   resampleChannelData \<lparr>FromRate = 1, ToRate = 1, Channels = 1\<rparr> (replicate 16 (Num 1))
     = Inr (replicate 16 (Num 0)) \<and>
   resampleChannelData \<lparr>FromRate = 1, ToRate = 1, Channels = 1\<rparr> (replicate 17 (Num 1))
     = Inr []"
proof (intro conjI impI)
  show "resampleChannelData r data = Inr (replicate (length data) (Num 0))"
    if "length data \<le> 16"
    using that by (simp add: resampleChannelData_def make_slice_def)
  show "resampleChannelData \<lparr>FromRate = 1, ToRate = 1, Channels = 1\<rparr> (replicate 16 (Num 1))
     = Inr (replicate 16 (Num 0))"
    by (simp add: resampleChannelData_def make_slice_def)
  show "resampleChannelData \<lparr>FromRate = 1, ToRate = 1, Channels = 1\<rparr> (replicate 17 (Num 1))
     = Inr []"
    by code_simp
qed

theorem resampleChannelData_short_witness:
  "length [Num 3, NaN, PInf] \<le> 16 \<and>
   resampleChannelData \<lparr>FromRate = 3, ToRate = 7, Channels = 2\<rparr> [Num 3, NaN, PInf]
     = Inr [Num 0, Num 0, Num 0]"
  using resampleChannelData_short
    [of "[Num 3, NaN, PInf]" "\<lparr>FromRate = 3, ToRate = 7, Channels = 2\<rparr>"]
  by (simp add: numeral_3_eq_3)

section \<open>The 16-bit adapter\<close>

text \<open>
  C6, the claim as stated fails: with identity rates the input \<open>[0, 16384, -16384]\<close> comes
  back as \<open>[0, 16384, -16384]\<close>, not as \<open>[0, 16383, -16384]\<close>. The quotient
  \<open>16384 / 32767\<close> rounds to a binary64 number whose product with \<open>32767\<close> rounds back
  to \<open>16384\<close> exactly.
\<close>

theorem ResampleInt16_scenario_counterexample:
  "ResampleInt16 \<lparr>FromRate = 1, ToRate = 1, Channels = 1\<rparr> [0, 16384, - 16384]
     \<noteq> Inr [0, 16383, - 16384]"
proof -
  have "ResampleInt16 \<lparr>FromRate = 1, ToRate = 1, Channels = 1\<rparr> [0, 16384, - 16384]
          = Inr [0, 16384, - 16384]"
    by code_simp
  then show ?thesis by simp
qed

text \<open>
  C6 as amended. \<^verbatim>\<open>ResampleInt16\<close> divides each 16-bit sample by 32767, hands the
  quotients to \<^verbatim>\<open>ResampleFloat64\<close>, and converts each result back by multiplying by
  32767 and discarding the fraction: \<open>1/2\<close> gives \<open>16383\<close> and \<open>-1/2\<close> gives
  \<open>-16383\<close>, so the conversion truncates toward zero and neither rounds nor clamps. With
  identity rates the input \<open>[0, 16384, -16384]\<close> returns \<open>[0, 16384, -16384]\<close>.
\<close>

theorem ResampleInt16_roundtrip:
  "ResampleInt16 r data =
     (case ResampleFloat64 r (map (\<lambda>d. f64_div (f64_of_int (sint d)) (Num 32767)) data) of
        Inl e \<Rightarrow> Inl e | Inr resampledf64 \<Rightarrow> to_int16s resampledf64) \<and>
   to_int16s [Num (1 / 2), Num (- (1 / 2))] = Inr [16383, - 16383] \<and>
   ResampleInt16 \<lparr>FromRate = 1, ToRate = 1, Channels = 1\<rparr> [0, 16384, - 16384]
     = Inr [0, 16384, - 16384]"
proof (intro conjI)
  show "ResampleInt16 r data =
     (case ResampleFloat64 r (map (\<lambda>d. f64_div (f64_of_int (sint d)) (Num 32767)) data) of
        Inl e \<Rightarrow> Inl e | Inr resampledf64 \<Rightarrow> to_int16s resampledf64)"
    by (simp add: ResampleInt16_def)
  show "to_int16s [Num (1 / 2), Num (- (1 / 2))] = Inr [16383, - 16383]"
    by code_simp
  show "ResampleInt16 \<lparr>FromRate = 1, ToRate = 1, Channels = 1\<rparr> [0, 16384, - 16384]
     = Inr [0, 16384, - 16384]"
    by code_simp
qed

section \<open>Length of the resampled buffer\<close>

text \<open>
  C4, the claim as stated fails: 9 samples at 8000 Hz resampled to 48000 Hz give 53
  samples, while \<open>\<lfloor>(9 / 8000) \<cdot> 48000\<rfloor> = 54\<close>. The quotient \<open>9 / 8000\<close> is rounded to
  binary64 before it is multiplied, and the rounded product lies just below 54.
\<close>

theorem ResampleFloat64_length_counterexample:
  "ResampleFloat64 \<lparr>FromRate = 8000, ToRate = 48000, Channels = 1\<rparr> (replicate 9 (Num 0))
     = Inr (replicate 53 (Num 0)) \<and>
   int (length (replicate 53 (Num 0))) \<noteq> \<lfloor>(9 / 8000) * 48000 :: rat\<rfloor>"
proof
  show "ResampleFloat64 \<lparr>FromRate = 8000, ToRate = 48000, Channels = 1\<rparr> (replicate 9 (Num 0))
     = Inr (replicate 53 (Num 0))"
    by code_simp
  show "int (length (replicate 53 (Num 0))) \<noteq> \<lfloor>(9 / 8000) * 48000 :: rat\<rfloor>"
    by simp
qed

section \<open>Failures of the resampling entry points\<close>


section \<open>Auxiliary facts on slices and loops\<close>

lemma make_slice_Inr: "make_slice s n z = Inr xs \<Longrightarrow> 0 \<le> n \<and> xs = replicate (nat n) z"
  by (auto simp: make_slice_def split: if_splits)

lemma interleave_length:
  "interleave nch rd i res = Inr out \<Longrightarrow> length out = length res"
proof (induction nch rd i res rule: interleave.induct)
  case (1 nch rd i res)
  show ?case
  proof (cases "i < length res")
    case False
    with "1.prems" show ?thesis by (simp add: interleave.simps [of nch rd i res])
  next
    case True
    note lt = this
    from "1.prems" True have nz: "\<not> (nch = 0 \<or> length rd = 0)"
      by (auto simp: interleave.simps [of nch rd i res])
    define dataLen where "dataLen = int (length (rd ! (i mod length rd)))"
    define d1 where "d1 = (if int i div nch > dataLen - 1 then dataLen - 1 else int i div nch)"
    define d2 where "d2 = (if d1 < 0 then 0 else d1)"
    have unf: "interleave nch rd i res =
      (if dataLen = 0 then interleave nch rd (Suc i) res
       else if 0 \<le> d2 \<and> d2 < dataLen then
          interleave nch rd (Suc i) (res[i := rd ! (i mod length rd) ! nat d2])
       else Inl IndexOutOfRange)"
      using lt nz by (subst interleave.simps) (simp add: Let_def dataLen_def d1_def d2_def)
    show ?thesis
    proof (cases "dataLen = 0")
      case True
      with "1.prems" unf have "interleave nch rd (Suc i) res = Inr out" by simp
      with "1.IH"(1) [OF lt nz refl refl refl] True show ?thesis by (simp add: dataLen_def)
    next
      case False
      with "1.prems" unf have ok: "0 \<le> d2 \<and> d2 < dataLen"
        and rec: "interleave nch rd (Suc i) (res[i := rd ! (i mod length rd) ! nat d2]) = Inr out"
        by (auto split: if_splits)
      have "length out = length (res[i := rd ! (i mod length rd) ! nat d2])"
        using "1.IH"(2) [OF lt nz refl refl refl _ refl refl] False ok rec
        unfolding dataLen_def d1_def d2_def by blast
      then show ?thesis by simp
    qed
  qed
qed

text \<open>
  The invariant of the resampling loop: when it returns, the samples written are those of
  the cursor values below \<open>avail\<close>, each the spline value divided by 32767, and the
  cursor value after the last one is not below \<open>avail\<close>.
\<close>

lemma resample_loop_inv:
  assumes "resample_loop data step avail x i buf = Inr out"
    and "x = cursor step i" and "i \<le> length buf"
    and "\<forall>k<i. f64_lt (cursor step k) avail \<and>
           (\<exists>yo. sample_at data (cursor step k) = Inr yo \<and> buf ! k = f64_div yo (Num 32767))"
  shows "length out \<le> length buf \<and> i \<le> length out \<and>
         \<not> f64_lt (cursor step (length out)) avail \<and>
         (\<forall>k<length out. f64_lt (cursor step k) avail \<and>
           (\<exists>yo. sample_at data (cursor step k) = Inr yo \<and> out ! k = f64_div yo (Num 32767)))"
  using assms
proof (induction data step avail x i buf rule: resample_loop.induct)
  case (1 data step avail x i buf)
  show ?case
  proof (cases "f64_lt x avail")
    case False
    with "1.prems"(1,3) have out: "out = take i buf"
      by (simp add: resample_loop.simps [of data step avail x i buf])
    with "1.prems"(2,3,4) False show ?thesis by simp
  next
    case True
    with "1.prems"(1) obtain yo where yo: "sample_at data x = Inr yo"
      by (cases "sample_at data x") (simp_all add: resample_loop.simps [of data step avail x i buf])
    from "1.prems"(1) True yo have lt: "i < length buf"
      and rec: "resample_loop data step avail (f64_add x step) (Suc i)
                  (buf[i := f64_div yo (Num 32767)]) = Inr out"
      by (auto simp: resample_loop.simps [of data step avail x i buf] split: if_splits)
    have inv: "\<forall>k<Suc i. f64_lt (cursor step k) avail \<and>
           (\<exists>yo'. sample_at data (cursor step k) = Inr yo' \<and>
                  (buf[i := f64_div yo (Num 32767)]) ! k = f64_div yo' (Num 32767))"
      using "1.prems"(2,4) True yo lt by (auto simp: less_Suc_eq)
    from "1.IH" [OF True yo lt rec _ _ inv] "1.prems"(2) lt
    show ?thesis by simp
  qed
qed

lemma resampleChannelData_long:
  assumes "16 < length data" "resampleChannelData r data = Inr out"
  obtains cap where
    "output_capacity (channel_step r) (int (length data) - 16) = Some cap"
    "0 \<le> cap"
    "resample_loop data (channel_step r) (f64_of_int (int (length data) - 16))
       (channel_step r) 0 (replicate (nat cap) (Num 0)) = Inr out"
  using assms
  by (auto simp: resampleChannelData_def Let_def split: option.splits sum.splits
      dest!: make_slice_Inr)

section \<open>Length of a resampled channel\<close>

text \<open>
  C1. For a channel of more than 16 samples, the sequence returned by
  \<^verbatim>\<open>resampleChannelData\<close> has as many samples as the loop ran iterations: the cursor,
  which starts at \<open>step\<close> and grows by \<open>step\<close>, is below \<open>availSamples\<close> at each of
  these iterations and not below it at the next one. This length is at most the allocated
  capacity \<open>ceil(availSamples / step)\<close>; the unused rest of the capacity is cut off.
\<close>

theorem resampleChannelData_length:
  assumes "16 < length data" and "resampleChannelData r data = Inr out"
  shows "(\<forall>k<length out.
            f64_lt (cursor (channel_step r) k) (f64_of_int (int (length data) - 16))) \<and>
         \<not> f64_lt (cursor (channel_step r) (length out))
              (f64_of_int (int (length data) - 16)) \<and>
         (\<exists>cap. output_capacity (channel_step r) (int (length data) - 16) = Some cap \<and>
                int (length out) \<le> cap)"
proof -
  from assms obtain cap where cap:
    "output_capacity (channel_step r) (int (length data) - 16) = Some cap" "0 \<le> cap"
    and loop: "resample_loop data (channel_step r) (f64_of_int (int (length data) - 16))
       (channel_step r) 0 (replicate (nat cap) (Num 0)) = Inr out"
    by (rule resampleChannelData_long)
  from resample_loop_inv [OF loop] cap show ?thesis by auto
qed

theorem resampleChannelData_length_witness:
  "16 < length (replicate 18 (Num 1)) \<and>
   resampleChannelData \<lparr>FromRate = 1, ToRate = 1, Channels = 1\<rparr> (replicate 18 (Num 1))
     = Inr [f64_div (Num 1) (Num 32767)] \<and>
   f64_lt (cursor (channel_step \<lparr>FromRate = 1, ToRate = 1, Channels = 1\<rparr>) 0)
     (f64_of_int (int (length (replicate 18 (Num 1))) - 16)) \<and>
   \<not> f64_lt (cursor (channel_step \<lparr>FromRate = 1, ToRate = 1, Channels = 1\<rparr>)
               (length [f64_div (Num 1) (Num 32767)]))
         (f64_of_int (int (length (replicate 18 (Num 1))) - 16)) \<and>
   (\<exists>cap. output_capacity (channel_step \<lparr>FromRate = 1, ToRate = 1, Channels = 1\<rparr>)
            (int (length (replicate 18 (Num 1))) - 16) = Some cap \<and>
          int (length [f64_div (Num 1) (Num 32767)]) \<le> cap)"
proof -
  have len: "16 < length (replicate 18 (Num 1))" by simp
  have run: "resampleChannelData \<lparr>FromRate = 1, ToRate = 1, Channels = 1\<rparr>
      (replicate 18 (Num 1)) = Inr [f64_div (Num 1) (Num 32767)]"
    by code_simp
  from len run resampleChannelData_length [OF len run] show ?thesis by auto
qed

section \<open>Normalisation of the emitted samples\<close>

text \<open>
  C3. Every sample emitted by \<^verbatim>\<open>resampleChannelData\<close> is the value of the spline
  evaluator at the cursor of its iteration divided by 32767, whatever the configuration
  and the data are. For 1 channel, source rate 1, target rate 2 and the 20 samples
  \<open>0, 1, \<dots>, 19\<close>, the spline value at the first cursor \<open>1/2\<close> is \<open>1/2\<close> and the first
  output sample is \<open>(1/2) / 32767\<close>.
\<close>

theorem resampleChannelData_normalised:
  "(16 < length data \<and> resampleChannelData r data = Inr out \<and> k < length out \<longrightarrow>
      (\<exists>yo. sample_at data (cursor (channel_step r) k) = Inr yo \<and>
            out ! k = f64_div yo (Num 32767))) \<and>
   sample_at (map (\<lambda>n. Num (of_nat n)) [0..<20]) (Num (1 / 2)) = Inr (Num (1 / 2)) \<and>
   map_sum id hd
     (resampleChannelData \<lparr>FromRate = 1, ToRate = 2, Channels = 1\<rparr>
        (map (\<lambda>n. Num (of_nat n)) [0..<20]))
     = Inr (f64_div (Num (1 / 2)) (Num 32767))"
proof (intro conjI impI)
  assume h: "16 < length data \<and> resampleChannelData r data = Inr out \<and> k < length out"
  then obtain cap where
    loop: "resample_loop data (channel_step r) (f64_of_int (int (length data) - 16))
       (channel_step r) 0 (replicate (nat cap) (Num 0)) = Inr out"
    by (blast elim: resampleChannelData_long)
  from resample_loop_inv [OF loop] h
  show "\<exists>yo. sample_at data (cursor (channel_step r) k) = Inr yo \<and>
            out ! k = f64_div yo (Num 32767)"
    by auto
next
  show "sample_at (map (\<lambda>n. Num (of_nat n)) [0..<20]) (Num (1 / 2)) = Inr (Num (1 / 2))"
    by code_simp
next
  show "map_sum id hd
     (resampleChannelData \<lparr>FromRate = 1, ToRate = 2, Channels = 1\<rparr>
        (map (\<lambda>n. Num (of_nat n)) [0..<20]))
     = Inr (f64_div (Num (1 / 2)) (Num 32767))"
    by code_simp
qed

theorem resampleChannelData_normalised_witness:
  "16 < length (replicate 18 (Num 1)) \<and>
   resampleChannelData \<lparr>FromRate = 1, ToRate = 1, Channels = 1\<rparr> (replicate 18 (Num 1))
     = Inr [f64_div (Num 1) (Num 32767)] \<and>
   0 < length [f64_div (Num 1) (Num 32767)] \<and>
   (\<exists>yo. sample_at (replicate 18 (Num 1))
           (cursor (channel_step \<lparr>FromRate = 1, ToRate = 1, Channels = 1\<rparr>) 0) = Inr yo \<and>
         [f64_div (Num 1) (Num 32767)] ! 0 = f64_div yo (Num 32767))"
proof -
  have len: "16 < length (replicate 18 (Num 1))" by simp
  have run: "resampleChannelData \<lparr>FromRate = 1, ToRate = 1, Channels = 1\<rparr>
      (replicate 18 (Num 1)) = Inr [f64_div (Num 1) (Num 32767)]"
    by code_simp
  have pos: "0 < length [f64_div (Num 1) (Num 32767)]" by simp
  from len run pos
    resampleChannelData_normalised
      [of "replicate 18 (Num 1)" "\<lparr>FromRate = 1, ToRate = 1, Channels = 1\<rparr>"
          "[f64_div (Num 1) (Num 32767)]" 0]
  show ?thesis by blast
qed

section \<open>Length of the resampled buffer, as computed\<close>

text \<open>
  C4 as amended. For a non-empty buffer and different rates, the buffer that
  \<^verbatim>\<open>ResampleFloat64\<close> returns has the length
  \<^verbatim>\<open>int((float64(len(data))/float64(FromRate))*float64(ToRate))\<close>: the quotient and the
  product are each rounded to binary64 and the fraction of the result is discarded.
\<close>

theorem ResampleFloat64_length:
  assumes "data \<noteq> []" and "FromRate r \<noteq> ToRate r" and "ResampleFloat64 r data = Inr out"
  shows "target_length r (length data) = Some (int (length out))"
  using assms
  by (auto simp: ResampleFloat64_def split: sum.splits option.splits
      dest!: interleave_length make_slice_Inr)

theorem ResampleFloat64_length_witness:
  "replicate 9 (Num 0) \<noteq> [] \<and>
   FromRate \<lparr>FromRate = 8000, ToRate = 48000, Channels = 1\<rparr>
     \<noteq> ToRate \<lparr>FromRate = 8000, ToRate = 48000, Channels = 1\<rparr> \<and>
   ResampleFloat64 \<lparr>FromRate = 8000, ToRate = 48000, Channels = 1\<rparr> (replicate 9 (Num 0))
     = Inr (replicate 53 (Num 0)) \<and>
   target_length \<lparr>FromRate = 8000, ToRate = 48000, Channels = 1\<rparr>
     (length (replicate 9 (Num 0))) = Some (int (length (replicate 53 (Num 0))))"
proof -
  have ne: "replicate 9 (Num 0) \<noteq> []" by simp
  have rates: "FromRate \<lparr>FromRate = 8000, ToRate = 48000, Channels = 1\<rparr>
     \<noteq> ToRate \<lparr>FromRate = 8000, ToRate = 48000, Channels = 1\<rparr>" by simp
  have run: "ResampleFloat64 \<lparr>FromRate = 8000, ToRate = 48000, Channels = 1\<rparr>
      (replicate 9 (Num 0)) = Inr (replicate 53 (Num 0))"
    by code_simp
  from ne rates run ResampleFloat64_length [OF ne rates run] show ?thesis by blast
qed

section \<open>Auxiliary facts on rounding\<close>

text \<open>
  Integers up to \<open>2 ^ 53\<close> in magnitude are binary64 numbers, and rounding a positive
  number never gives a negative one.
\<close>

lemma pow2_pos: "0 < pow2 e"
  by (simp add: pow2_def)

lemma rne_of_int: "rne (of_int m) = m"
  by (simp add: rne_def)

lemma rne_nonneg: "0 \<le> q \<Longrightarrow> 0 \<le> rne q"
  by (auto simp: rne_def Let_def)

lemma ilog2_of_int:
  assumes "0 < n"
  shows "ilog2 (of_int n) = bitlen n - 1"
proof -
  from assms have b: "1 \<le> bitlen n"
    using bitlen_eq_zero_iff [of n] bitlen_nonneg [of n] by linarith
  have b1: "bitlen 1 = 1" by (simp add: bitlen_alt_def)
  from bitlen_bounds [OF assms] have "2 ^ nat (bitlen n - 1) \<le> n" by simp
  then have "(of_int (2 ^ nat (bitlen n - 1)) :: rat) \<le> of_int n"
    by (simp only: of_int_le_iff)
  with b have "pow2 (bitlen n - 1) \<le> of_int n" by (simp add: pow2_def)
  then show ?thesis by (simp add: ilog2_def b1)
qed

lemma f64_round_of_int:
  assumes "0 < n" "n \<le> 2 ^ 53"
  shows "f64_round (of_int n) = Num (of_int n)"
proof -
  define e where "e = bitlen n - 1"
  from assms(1) have b: "0 \<le> e"
    using bitlen_eq_zero_iff [of n] bitlen_nonneg [of n] unfolding e_def by linarith
  from assms(2) have "n < 2 ^ nat 54" by simp
  then have "bitlen n \<le> 54" by (simp add: bitlen_le_iff_power)
  then have e53: "e \<le> 53" by (simp add: e_def)
  have il: "ilog2 (of_int n) = e" using assms(1) ilog2_of_int [of n] by (simp add: e_def)
  have ab: "\<bar>of_int n :: rat\<bar> = of_int n" using assms(1) by simp
  have v: "of_int (rne (of_int n / pow2 (e - 52))) * pow2 (e - 52) = (of_int n :: rat)"
  proof (cases "e \<le> 52")
    case True
    then have q: "pow2 (e - 52) = 1 / of_int (2 ^ nat (52 - e))"
      by (cases "e = 52") (simp_all add: pow2_def)
    have "(of_int n :: rat) / pow2 (e - 52) = of_int (n * 2 ^ nat (52 - e))"
      by (simp add: q)
    then have "rne (of_int n / pow2 (e - 52)) = n * 2 ^ nat (52 - e)"
      by (simp only: rne_of_int)
    then show ?thesis by (simp add: q)
  next
    case False
    with e53 have e: "e = 53" by simp
    from bitlen_bounds [OF assms(1)] have "2 ^ nat e \<le> n" by (simp add: e_def)
    with e assms(2) have n: "n = 2 ^ 53" by simp
    have "(of_int n :: rat) / pow2 (e - 52) = of_int (2 ^ 52)"
      by (simp add: n e pow2_def)
    then have "rne (of_int n / pow2 (e - 52)) = 2 ^ 52" by (simp only: rne_of_int)
    then show ?thesis by (simp add: n e pow2_def)
  qed
  have "(of_int n :: rat) \<le> of_int (2 ^ 53)" using assms(2) by (simp only: of_int_le_iff)
  also have "\<dots> < of_int (2 ^ 1024)" by (simp only: of_int_less_iff) simp
  finally have small: "\<not> pow2 1024 \<le> (of_int n :: rat)" by (simp add: pow2_def)
  from b have mx: "max e (- 1022) = e" by simp
  show ?thesis
    unfolding f64_round_def Let_def ab il mx v
    using assms(1) small by simp
qed

lemma f64_round_nonneg:
  assumes "0 < r"
  shows "f64_round r = PInf \<or> (\<exists>v\<ge>0. f64_round r = Num v)"
proof -
  define q where "q = pow2 (max (ilog2 \<bar>r\<bar>) (- 1022) - 52)"
  have "0 < q" by (simp add: q_def pow2_pos)
  with assms have "0 \<le> \<bar>r\<bar> / q" by simp
  then have "0 \<le> rne (\<bar>r\<bar> / q)" by (rule rne_nonneg)
  with \<open>0 < q\<close> have "0 \<le> of_int (rne (\<bar>r\<bar> / q)) * q" by simp
  with assms show ?thesis
    unfolding q_def by (auto simp: f64_round_def Let_def)
qed

section \<open>Auxiliary facts on the cursor\<close>

text \<open>
  The cursor never goes below zero, so while it is below the number of available samples
  its conversion to an integer is defined and exact, the window lies inside the data, and
  the cursor lies in the first unit interval of the window.
\<close>

lemma f64_round_nonneg': "0 < r \<Longrightarrow> f64_nonneg (f64_round r)"
  using f64_round_nonneg [of r] by auto

lemma f64_of_int_exact: "0 \<le> n \<Longrightarrow> n \<le> 2 ^ 53 \<Longrightarrow> f64_of_int n = Num (of_int n)"
  using f64_round_of_int [of n] by (cases "n = 0") (simp_all add: f64_of_int_def f64_round_def)

lemma f64_of_int_nonneg: "0 \<le> n \<Longrightarrow> f64_nonneg (f64_of_int n)"
  using f64_round_nonneg' [of "of_int n"]
  by (cases "n = 0") (simp_all add: f64_of_int_def f64_round_def)

lemma f64_add_nonneg:
  assumes "f64_nonneg x" "f64_nonneg y"
  shows "f64_nonneg (f64_add x y)"
proof (cases x)
  case (Num a)
  note x = this
  show ?thesis
  proof (cases y)
    case (Num b)
    with x assms have "0 \<le> a" "0 \<le> b" by simp_all
    then have "a + b = 0 \<or> 0 < a + b" by linarith
    then show ?thesis
      using x Num \<open>0 \<le> a\<close> \<open>0 \<le> b\<close> f64_round_nonneg' [of "a + b"]
      by (auto simp: f64_add_def f64_zero_def Let_def)
  qed (use x assms in \<open>simp_all add: f64_add_def\<close>)
qed (use assms in \<open>cases y; simp add: f64_add_def\<close>)+

lemma f64_div_nonneg:
  assumes "f64_nonneg x" "f64_nonneg y"
  shows "f64_nonneg (f64_div x y)"
proof (cases x)
  case (Num a)
  note x = this
  show ?thesis
  proof (cases y)
    case (Num b)
    with x assms have ab: "0 \<le> a" "0 \<le> b" by simp_all
    show ?thesis
    proof (cases "a = 0 \<or> b = 0")
      case True
      with x Num ab show ?thesis
        by (auto simp: f64_div_def f64_zero_def f64_inf_def)
    next
      case False
      with ab have "0 < a / b" by simp
      from f64_round_nonneg' [OF this] False x Num show ?thesis
        by (simp add: f64_div_def)
    qed
  qed (use x assms in \<open>simp_all add: f64_div_def f64_zero_def f64_inf_def\<close>)
qed (use assms in \<open>cases y; simp add: f64_div_def f64_zero_def f64_inf_def\<close>)+

lemma cursor_nonneg: "f64_nonneg step \<Longrightarrow> f64_nonneg (cursor step k)"
  by (induction k) (simp_all add: f64_add_nonneg)

lemma channel_step_nonneg:
  assumes "0 \<le> Channels r" "0 \<le> FromRate r" "0 \<le> ToRate r"
  shows "f64_nonneg (channel_step r)"
  using assms by (simp add: channel_step_def Let_def f64_div_nonneg f64_of_int_nonneg)

lemma f64_lt_nonneg:
  assumes "f64_nonneg x" "f64_lt x (Num a)"
  obtains q where "x = Num q" "0 \<le> q" "q < a"
  using assms by (cases x) (auto simp: f64_lt_def split: if_splits)

lemma list4: "length xs = 4 \<Longrightarrow> \<exists>a b c d. xs = [a, b, c, d]"
  by (auto simp: length_Suc_conv numeral_eq_Suc)

lemma f64_add_one_exact:
  assumes "0 \<le> u" "u < 2 ^ 53"
  shows "f64_add (Num (of_int u)) (Num 1) = Num (of_int (u + 1))"
proof -
  from assms have "(of_int u :: rat) + 1 \<noteq> 0"
    by (metis add.commute of_int_0_le_iff not_one_le_zero add_increasing2 zero_le_one le_add_same_cancel1 add_nonneg_eq_0_iff zero_neq_one)
  moreover have "f64_round (of_int (u + 1)) = Num (of_int (u + 1))"
    using assms by (intro f64_round_of_int) simp_all
  ultimately show ?thesis by (simp add: f64_add_def Let_def)
qed

lemma sample_at_in_range:
  assumes q: "0 \<le> q" "q < of_int a" and a: "a \<le> 2 ^ 53" "a + 16 \<le> int (length data)"
  shows "\<exists>w c1 c2.
           f64_to_uint64 (Num q) = Some \<lfloor>q\<rfloor> \<and>
           f64_of_int \<lfloor>q\<rfloor> = Num (of_int \<lfloor>q\<rfloor>) \<and>
           window data \<lfloor>q\<rfloor> = Inr w \<and> splineC1 w = Inr c1 \<and> splineC2 w = Inr c2 \<and>
           f64_le (Num (of_int \<lfloor>q\<rfloor>)) (Num q) \<and>
           f64_lt (Num q) (f64_add (Num (of_int \<lfloor>q\<rfloor>)) (Num 1)) \<and>
           f64_le (Num q) (f64_add (Num (of_int \<lfloor>q\<rfloor>)) (Num 1)) \<and>
           spline (Num (of_int \<lfloor>q\<rfloor>)) w (Num q) = sample_at data (Num q) \<and>
           sample_at data (Num q) =
             Inr (splineZ0 (splineM1 c1 c2) (Num 1) (Num (of_int \<lfloor>q\<rfloor>))
                    (f64_add (Num (of_int \<lfloor>q\<rfloor>)) (Num 1)) (w ! 0) (w ! 1) (Num q))"
proof -
  define u where "u = \<lfloor>q\<rfloor>"
  from q have u0: "0 \<le> u" by (simp add: u_def)
  from q have ua: "u < a" by (simp add: u_def floor_less_iff)
  with a have u53: "u < 2 ^ 53" by linarith
  have conv: "f64_to_uint64 (Num q) = Some u"
    using q u0 u53 by (simp add: f64_to_uint64_def f64_to_integer_def rat_trunc_def u_def)
  have xi: "f64_of_int u = Num (of_int u)"
    using u0 u53 by (intro f64_of_int_exact) simp_all
  have conv2: "f64_to_uint64 (Num (of_int u)) = Some u"
    using u0 u53 by (simp add: f64_to_uint64_def f64_to_integer_def rat_trunc_def)
  have win: "window data u = Inr (take 4 (drop (nat u) data))"
    using u0 ua a by (simp add: window_def)
  have "length (take 4 (drop (nat u) data)) = 4"
    using u0 ua a by simp
  then obtain y0 y1 y2 y3 where w: "take 4 (drop (nat u) data) = [y0, y1, y2, y3]"
    using list4 by blast
  have add1: "f64_add (Num (of_int u)) (Num 1) = Num (of_int (u + 1))"
    using u0 u53 by (rule f64_add_one_exact)
  have le: "f64_le (Num (of_int u)) (Num q)"
    by (simp add: f64_le_def u_def)
  have "q < of_int \<lfloor>q\<rfloor> + 1" by linarith
  then have lt: "f64_lt (Num q) (Num (of_int (u + 1)))"
    by (simp add: f64_lt_def u_def)
  have le1: "f64_le (Num q) (Num (of_int (u + 1)))"
    using lt by (simp add: f64_le_def f64_lt_def)
  have sp: "spline (Num (of_int u)) [y0, y1, y2, y3] (Num q) =
      Inr (splineZ0
             (splineM1 (f64_mul (Num 3) (f64_sub (f64_sub y2 y1) (f64_sub y1 y0)))
                       (f64_mul (Num 3) (f64_sub (f64_sub y3 y2) (f64_sub y2 y1))))
             (Num 1) (Num (of_int u)) (Num (of_int (u + 1))) y0 y1 (Num q))"
    using le1 by (simp add: add1 Let_def)
  have "sample_at data (Num q) = spline (Num (of_int u)) [y0, y1, y2, y3] (Num q)"
    by (simp add: sample_at_def conv xi conv2 win w Let_def)
  with sp conv xi win w le lt le1 add1 show ?thesis
    unfolding u_def [symmetric] by (auto simp: add1)
qed

section \<open>The sub-interval of the spline\<close>

text \<open>
  C9. In every call of the spline evaluator made by \<^verbatim>\<open>resampleChannelData\<close> (the cursor
  \<open>x\<close> of an iteration is below the number of available samples), \<open>x\<close> satisfies
  \<open>baseIndex \<le> x < baseIndex + 1\<close>, where \<open>baseIndex\<close> is \<open>x\<close> truncated to an
  integer. So the test \<^verbatim>\<open>xo <= xi+1\<close> of \<^verbatim>\<open>spline\<close> succeeds and the result is that of
  \<^verbatim>\<open>splineZ0\<close>; \<^verbatim>\<open>splineZ1\<close> and \<^verbatim>\<open>splineZ2\<close> are never evaluated. The configuration
  is valid and the channel has fewer than \<open>2 ^ 53\<close> samples.
\<close>

theorem spline_first_interval:
  assumes "1 \<le> Channels r" and "1 \<le> FromRate r" and "1 \<le> ToRate r"
    and "16 < length data" and "length data < 2 ^ 53"
    and "f64_lt (cursor (channel_step r) k) (f64_of_int (int (length data) - 16))"
  shows "\<exists>u w c1 c2.
           f64_to_uint64 (cursor (channel_step r) k) = Some u \<and>
           window data u = Inr w \<and> splineC1 w = Inr c1 \<and> splineC2 w = Inr c2 \<and>
           f64_le (f64_of_int u) (cursor (channel_step r) k) \<and>
           f64_lt (cursor (channel_step r) k) (f64_add (f64_of_int u) (Num 1)) \<and>
           f64_le (cursor (channel_step r) k) (f64_add (f64_of_int u) (Num 1)) \<and>
           spline (f64_of_int u) w (cursor (channel_step r) k) =
             Inr (splineZ0 (splineM1 c1 c2) (Num 1) (f64_of_int u)
                    (f64_add (f64_of_int u) (Num 1)) (w ! 0) (w ! 1)
                    (cursor (channel_step r) k)) \<and>
           sample_at data (cursor (channel_step r) k) =
             spline (f64_of_int u) w (cursor (channel_step r) k)"
proof -
  define a where "a = int (length data) - 16"
  from assms(4,5) have a: "0 \<le> a" "a \<le> 2 ^ 53" "a + 16 \<le> int (length data)"
    by (simp_all add: a_def)
  then have av: "f64_of_int a = Num (of_int a)" by (simp add: f64_of_int_exact)
  from assms(1-3) have "f64_nonneg (channel_step r)"
    by (intro channel_step_nonneg) simp_all
  then have "f64_nonneg (cursor (channel_step r) k)" by (rule cursor_nonneg)
  moreover from assms(6) have "f64_lt (cursor (channel_step r) k) (Num (of_int a))"
    by (simp add: a_def [symmetric] av)
  ultimately obtain q where q: "cursor (channel_step r) k = Num q" "0 \<le> q" "q < of_int a"
    by (rule f64_lt_nonneg)
  from sample_at_in_range [OF q(2,3) a(2,3)] show ?thesis
    unfolding q(1) by (metis (no_types, lifting))
qed

theorem spline_first_interval_witness:
  "1 \<le> Channels \<lparr>FromRate = 1, ToRate = 1, Channels = 1\<rparr> \<and>
   1 \<le> FromRate \<lparr>FromRate = 1, ToRate = 1, Channels = 1\<rparr> \<and>
   1 \<le> ToRate \<lparr>FromRate = 1, ToRate = 1, Channels = 1\<rparr> \<and>
   16 < length (replicate 18 (Num 1)) \<and> length (replicate 18 (Num 1)) < 2 ^ 53 \<and>
   f64_lt (cursor (channel_step \<lparr>FromRate = 1, ToRate = 1, Channels = 1\<rparr>) 0)
     (f64_of_int (int (length (replicate 18 (Num 1))) - 16)) \<and>
   (\<exists>u w c1 c2.
      splineC1 w = Inr c1 \<and> splineC2 w = Inr c2 \<and>
      sample_at (replicate 18 (Num 1))
        (cursor (channel_step \<lparr>FromRate = 1, ToRate = 1, Channels = 1\<rparr>) 0) =
      Inr (splineZ0 (splineM1 c1 c2) (Num 1) (f64_of_int u)
             (f64_add (f64_of_int u) (Num 1)) (w ! 0) (w ! 1)
             (cursor (channel_step \<lparr>FromRate = 1, ToRate = 1, Channels = 1\<rparr>) 0)))"
proof -
  let ?r = "\<lparr>FromRate = 1, ToRate = 1, Channels = 1\<rparr>"
  let ?d = "replicate 18 (Num 1)"
  have v: "1 \<le> Channels ?r" "1 \<le> FromRate ?r" "1 \<le> ToRate ?r" by simp_all
  have l: "16 < length ?d" "length ?d < 2 ^ 53" by simp_all
  have c: "f64_lt (cursor (channel_step ?r) 0) (f64_of_int (int (length ?d) - 16))"
    by code_simp
  from spline_first_interval [OF v l c] obtain u w c1 c2 where
    "splineC1 w = Inr c1" "splineC2 w = Inr c2"
    "sample_at ?d (cursor (channel_step ?r) 0) =
      Inr (splineZ0 (splineM1 c1 c2) (Num 1) (f64_of_int u)
             (f64_add (f64_of_int u) (Num 1)) (w ! 0) (w ! 1) (cursor (channel_step ?r) 0))"
    by auto
  with v l c show ?thesis by blast
qed

section \<open>Auxiliary facts on failures\<close>










section \<open>What can fail in the resampling entry points\<close>



section \<open>Auxiliary facts on the store\<close>

text \<open>
  Every write of the entry points goes to an array allocated during the call.
\<close>

lemma keeps_refl: "keeps b s s"
  by (simp add: keeps_def)

lemma keeps_trans: "keeps b s s' \<Longrightarrow> keeps b s' s'' \<Longrightarrow> keeps b s s''"
  by (auto simp: keeps_def)

lemma keeps_brk: "keeps b s s' \<Longrightarrow> b \<le> brk s \<Longrightarrow> b \<le> brk s'"
  by (auto simp: keeps_def)

lemma keeps_conf: "keeps b s s' \<Longrightarrow> conf s' = conf s"
  by (simp add: keeps_def)

lemma alloc_keeps:
  "alloc n s = Inr (sl, s') \<Longrightarrow> b \<le> brk s \<Longrightarrow> keeps b s s' \<and> fresh b sl"
  by (auto simp: alloc_def keeps_def split: sum.splits)

lemma alloc16_keeps:
  "alloc16 n s = Inr (sl, s') \<Longrightarrow> b \<le> brk s \<Longrightarrow> keeps b s s' \<and> fresh b sl"
  by (auto simp: alloc16_def keeps_def split: sum.splits)

lemma put_keeps: "put sl i v s = Inr s' \<Longrightarrow> fresh b sl \<Longrightarrow> keeps b s s'"
  by (cases sl) (auto simp: keeps_def split: if_splits)

lemma put16_keeps: "put16 sl i v s = Inr s' \<Longrightarrow> fresh b sl \<Longrightarrow> keeps b s s'"
  by (cases sl) (auto simp: keeps_def split: if_splits)

lemma append_keeps:
  "append_st sl v s = (sl', s') \<Longrightarrow> fresh b sl \<Longrightarrow> b \<le> brk s \<Longrightarrow> keeps b s s' \<and> fresh b sl'"
  by (cases sl) (auto simp: keeps_def)

lemma split_keeps:
  assumes "split_st d i channels s = Inr (chs, s')"
    and "\<forall>sl\<in>set channels. fresh b sl" and "b \<le> brk s"
  shows "keeps b s s' \<and> (\<forall>sl\<in>set chs. fresh b sl)"
  using assms
proof (induction d i channels s rule: split_st.induct)
  case (1 d i channels s)
  show ?case
  proof (cases "i < slice_len d")
    case False
    with "1.prems" show ?thesis
      by (simp add: split_st.simps [of d i channels s] keeps_refl)
  next
    case True
    define c where "c = int i mod Channels (conf s)"
    from "1.prems"(1) True have nz: "Channels (conf s) \<noteq> 0"
      by (auto simp: split_st.simps [of d i channels s] split: if_splits)
    from "1.prems"(1) True nz have ok: "0 \<le> c \<and> c < int (length channels)"
      by (auto simp: split_st.simps [of d i channels s] Let_def c_def split: if_splits)
    obtain sl s1 where ap: "append_st (channels ! nat c) (contents s d ! i) s = (sl, s1)"
      by (cases "append_st (channels ! nat c) (contents s d ! i) s")
    from "1.prems"(1) True nz ok ap
    have rec: "split_st d (Suc i) (channels[nat c := sl]) s1 = Inr (chs, s')"
      by (simp add: split_st.simps [of d i channels s] Let_def c_def [symmetric])
    from ok have "nat c < length channels" by linarith
    then have "channels ! nat c \<in> set channels" by (rule nth_mem)
    with "1.prems"(2) have "fresh b (channels ! nat c)" by blast
    from append_keeps [OF ap this "1.prems"(3)] have k1: "keeps b s s1" and f1: "fresh b sl"
      by simp_all
    have fr: "\<forall>x\<in>set (channels[nat c := sl]). fresh b x"
      using "1.prems"(2) f1 by (auto dest!: subsetD [OF set_update_subset_insert])
    have "keeps b s1 s' \<and> (\<forall>sl\<in>set chs. fresh b sl)"
      using "1.IH" [OF True nz refl _ ap [symmetric, unfolded c_def] rec [unfolded c_def]]
        ok fr keeps_brk [OF k1 "1.prems"(3)]
      unfolding c_def by blast
    with k1 show ?thesis by (blast intro: keeps_trans)
  qed
qed

lemma resample_loop_keeps:
  assumes "resample_loop_st d step avail x i out s = Inr (res, s')" and "fresh b out"
  shows "keeps b s s' \<and> fresh b res"
  using assms
proof (induction d step avail x i out s rule: resample_loop_st.induct)
  case (1 d step avail x i out s)
  show ?case
  proof (cases "f64_lt x avail")
    case False
    with "1.prems"(1)
    have "(case out of
             Slice a n \<Rightarrow> if i \<le> n then Inr (Slice a i, s) else Inl SliceBounds
           | NilSlice \<Rightarrow> if i = 0 then Inr (NilSlice, s) else Inl SliceBounds) = Inr (res, s')"
      by (simp add: resample_loop_st.simps [of d step avail x i out s])
    with "1.prems"(2) show ?thesis
      by (cases out) (auto simp: keeps_refl split: if_splits)
  next
    case True
    with "1.prems"(1) obtain yo where yo: "sample_at (contents s d) x = Inr yo"
      by (cases "sample_at (contents s d) x")
         (simp_all add: resample_loop_st.simps [of d step avail x i out s])
    with "1.prems"(1) True obtain s1 where
      p: "put out i (f64_div yo (Num 32767)) s = Inr s1"
      by (cases "put out i (f64_div yo (Num 32767)) s")
         (simp_all add: resample_loop_st.simps [of d step avail x i out s])
    with "1.prems"(1) True yo
    have rec: "resample_loop_st d step avail (f64_add x step) (Suc i) out s1 = Inr (res, s')"
      by (simp add: resample_loop_st.simps [of d step avail x i out s])
    from put_keeps [OF p "1.prems"(2)] have k1: "keeps b s s1" .
    from "1.IH" [OF True yo p rec "1.prems"(2)] k1 show ?thesis
      by (blast intro: keeps_trans)
  qed
qed

lemma resampleChannelData_keeps:
  assumes "resampleChannelData_st d s = Inr (res, s')" and "b \<le> brk s"
  shows "keeps b s s' \<and> fresh b res"
proof (cases "slice_len d \<le> 16")
  case True
  with assms show ?thesis by (simp add: resampleChannelData_st_def alloc_keeps)
next
  case False
  with assms(1) obtain n out s1 where
    al: "alloc n s = Inr (out, s1)" and
    lp: "resample_loop_st d (channel_step (conf s))
           (f64_of_int (int (slice_len d) - 16)) (channel_step (conf s)) 0 out s1 = Inr (res, s')"
    by (auto simp: resampleChannelData_st_def Let_def split: option.splits sum.splits)
  from alloc_keeps [OF al assms(2)] have k1: "keeps b s s1" and f: "fresh b out" by simp_all
  from resample_loop_keeps [OF lp f] k1 show ?thesis by (blast intro: keeps_trans)
qed

lemma resample_channels_keeps:
  assumes "resample_channels_st cs s = Inr (outs, s')" and "b \<le> brk s"
  shows "keeps b s s'"
  using assms
proof (induction cs arbitrary: s outs)
  case Nil
  then show ?case by (simp add: keeps_refl)
next
  case (Cons c cs)
  from Cons.prems(1) obtain out s1 outs1 where
    c: "resampleChannelData_st c s = Inr (out, s1)" and
    r: "resample_channels_st cs s1 = Inr (outs1, s')"
    by (auto split: sum.splits)
  from resampleChannelData_keeps [OF c Cons.prems(2)] have k1: "keeps b s s1" by simp
  from Cons.IH [OF r keeps_brk [OF k1 Cons.prems(2)]] k1 show ?case
    by (blast intro: keeps_trans)
qed

lemma interleave_keeps:
  assumes "interleave_st rd i resampled s = Inr s'" and "fresh b resampled"
  shows "keeps b s s'"
  using assms
proof (induction rd i resampled s rule: interleave_st.induct)
  case (1 rd i resampled s)
  show ?case
  proof (cases "i < slice_len resampled")
    case False
    with "1.prems" show ?thesis
      by (simp add: interleave_st.simps [of rd i resampled s] keeps_refl)
  next
    case True
    note lt = this
    from "1.prems"(1) True have nz: "\<not> (Channels (conf s) = 0 \<or> length rd = 0)"
      by (auto simp: interleave_st.simps [of rd i resampled s] split: if_splits)
    define dataLen where "dataLen = int (slice_len (rd ! (i mod length rd)))"
    define d1 where
      "d1 = (if int i div Channels (conf s) > dataLen - 1 then dataLen - 1
             else int i div Channels (conf s))"
    define d2 where "d2 = (if d1 < 0 then 0 else d1)"
    have unf: "interleave_st rd i resampled s =
      (if dataLen = 0 then interleave_st rd (Suc i) resampled s
       else if 0 \<le> d2 \<and> d2 < dataLen then
          (case put resampled i (contents s (rd ! (i mod length rd)) ! nat d2) s of
             Inl e \<Rightarrow> Inl e
           | Inr s1 \<Rightarrow> interleave_st rd (Suc i) resampled s1)
       else Inl IndexOutOfRange)"
      using lt nz
      by (subst interleave_st.simps) (simp add: Let_def dataLen_def d1_def d2_def)
    show ?thesis
    proof (cases "dataLen = 0")
      case True
      with "1.prems"(1) unf have "interleave_st rd (Suc i) resampled s = Inr s'" by simp
      with "1.IH"(1) [OF lt nz refl refl refl] True "1.prems"(2) show ?thesis
        by (simp add: dataLen_def)
    next
      case False
      with "1.prems"(1) unf have ok: "0 \<le> d2 \<and> d2 < dataLen"
        by (auto split: if_splits)
      with "1.prems"(1) unf False obtain s1 where
        p: "put resampled i (contents s (rd ! (i mod length rd)) ! nat d2) s = Inr s1" and
        rec: "interleave_st rd (Suc i) resampled s1 = Inr s'"
        by (auto split: sum.splits)
      from put_keeps [OF p "1.prems"(2)] have k1: "keeps b s s1" .
      have "keeps b s1 s'"
        using "1.IH"(2) [OF lt nz refl refl refl _ refl refl _ p [unfolded dataLen_def d1_def d2_def]]
          False ok rec "1.prems"(2)
        unfolding dataLen_def d1_def d2_def by blast
      with k1 show ?thesis by (blast intro: keeps_trans)
    qed
  qed
qed

lemma ResampleFloat64_keeps:
  assumes "ResampleFloat64_st d s = Inr (res, s')" and "b \<le> brk s"
  shows "keeps b s s' \<and> (res = d \<or> fresh b res)"
proof (cases "slice_len d = 0 \<or> FromRate (conf s) = ToRate (conf s)")
  case True
  with assms show ?thesis
    by (auto simp: ResampleFloat64_st_def keeps_refl split: if_splits)
next
  case False
  with assms(1) obtain channels0 channels s1 n resampled s2 rd s3 where
    mk: "make_slice 24 (Channels (conf s)) NilSlice = Inr channels0" and
    sp: "split_st d 0 channels0 s = Inr (channels, s1)" and
    al: "alloc n s1 = Inr (resampled, s2)" and
    rc: "resample_channels_st channels s2 = Inr (rd, s3)" and
    il: "interleave_st rd 0 resampled s3 = Inr s'" and
    res: "res = resampled"
    by (auto simp: ResampleFloat64_st_def split: sum.splits option.splits)
  from mk have "\<forall>sl\<in>set channels0. fresh b sl"
    by (auto dest!: make_slice_Inr)
  from split_keeps [OF sp this assms(2)] have k1: "keeps b s s1" by simp
  note b1 = keeps_brk [OF k1 assms(2)]
  from alloc_keeps [OF al b1] have k2: "keeps b s1 s2" and f: "fresh b resampled" by simp_all
  note b2 = keeps_brk [OF k2 b1]
  from resample_channels_keeps [OF rc b2] have k3: "keeps b s2 s3" .
  from interleave_keeps [OF il f] have k4: "keeps b s3 s'" .
  from k1 k2 k3 k4 f res show ?thesis by (blast intro: keeps_trans)
qed

lemma to_f64_keeps:
  assumes "to_f64_st d i f64data s = Inr s'" and "fresh b f64data"
  shows "keeps b s s'"
  using assms
proof (induction d i f64data s rule: to_f64_st.induct)
  case (1 d i f64data s)
  show ?case
  proof (cases "i < slice_len d")
    case False
    with "1.prems" show ?thesis
      by (simp add: to_f64_st.simps [of d i f64data s] keeps_refl)
  next
    case True
    with "1.prems"(1) obtain s1 where
      p: "put f64data i (f64_div (f64_of_int (sint (contents16 s d ! i))) (Num 32767)) s = Inr s1"
      and rec: "to_f64_st d (Suc i) f64data s1 = Inr s'"
      by (auto simp: to_f64_st.simps [of d i f64data s] split: sum.splits)
    from put_keeps [OF p "1.prems"(2)] "1.IH" [OF True p rec "1.prems"(2)]
    show ?thesis by (blast intro: keeps_trans)
  qed
qed

lemma to_i16_keeps:
  assumes "to_i16_st r64 i r16 s = Inr s'" and "fresh b r16"
  shows "keeps b s s'"
  using assms
proof (induction r64 i r16 s rule: to_i16_st.induct)
  case (1 r64 i r16 s)
  show ?case
  proof (cases "i < slice_len r64")
    case False
    with "1.prems" show ?thesis
      by (simp add: to_i16_st.simps [of r64 i r16 s] keeps_refl)
  next
    case True
    with "1.prems"(1) obtain w s1 where
      w: "f64_to_int16 (f64_mul (contents s r64 ! i) (Num 32767)) = Some w" and
      p: "put16 r16 i w s = Inr s1" and
      rec: "to_i16_st r64 (Suc i) r16 s1 = Inr s'"
      by (auto simp: to_i16_st.simps [of r64 i r16 s] split: sum.splits option.splits)
    from put16_keeps [OF p "1.prems"(2)] "1.IH" [OF True w p rec "1.prems"(2)]
    show ?thesis by (blast intro: keeps_trans)
  qed
qed

lemma ResampleInt16_keeps:
  assumes "ResampleInt16_st d s = Inr (res, s')" and "b \<le> brk s"
  shows "keeps b s s' \<and> fresh b res"
proof -
  from assms(1) obtain f64data s1 s2 r64 s3 s4 where
    a1: "alloc (int (slice_len d)) s = Inr (f64data, s1)" and
    c1: "to_f64_st d 0 f64data s1 = Inr s2" and
    rs: "ResampleFloat64_st f64data s2 = Inr (r64, s3)" and
    a2: "alloc16 (int (slice_len r64)) s3 = Inr (res, s4)" and
    c2: "to_i16_st r64 0 res s4 = Inr s'"
    by (auto simp: ResampleInt16_st_def split: sum.splits)
  from alloc_keeps [OF a1 assms(2)] have k1: "keeps b s s1" and f1: "fresh b f64data"
    by simp_all
  note b1 = keeps_brk [OF k1 assms(2)]
  from to_f64_keeps [OF c1 f1] have k2: "keeps b s1 s2" .
  note b2 = keeps_brk [OF k2 b1]
  from ResampleFloat64_keeps [OF rs b2] have k3: "keeps b s2 s3" by simp
  note b3 = keeps_brk [OF k3 b2]
  from alloc16_keeps [OF a2 b3] have k4: "keeps b s3 s4" and f2: "fresh b res" by simp_all
  from to_i16_keeps [OF c2 f2] have k5: "keeps b s4 s'" .
  from k1 k2 k3 k4 k5 f2 show ?thesis by (blast intro: keeps_trans)
qed

section \<open>What the entry points write\<close>

text \<open>
  C10. Neither \<^verbatim>\<open>ResampleFloat64\<close> nor \<^verbatim>\<open>ResampleInt16\<close> changes the input buffer or a
  field of the configuration: when a call returns, the array of the input slice (any
  array allocated before the call) holds the samples it held before, and the
  \<^verbatim>\<open>Resampler\<close> struct is unchanged.
\<close>

theorem entry_points_frame:
  assumes "a < brk s"
  shows "(case ResampleFloat64_st (Slice a n) s of
            Inl e \<Rightarrow> True
          | Inr (res, s') \<Rightarrow>
              contents s' (Slice a n) = contents s (Slice a n) \<and> mem s' a = mem s a \<and>
              conf s' = conf s) \<and>
         (case ResampleInt16_st (Slice a n) s of
            Inl e \<Rightarrow> True
          | Inr (res, s') \<Rightarrow>
              contents16 s' (Slice a n) = contents16 s (Slice a n) \<and>
              mem16 s' a = mem16 s a \<and> conf s' = conf s)"
proof
  show "case ResampleFloat64_st (Slice a n) s of
            Inl e \<Rightarrow> True
          | Inr (res, s') \<Rightarrow>
              contents s' (Slice a n) = contents s (Slice a n) \<and> mem s' a = mem s a \<and>
              conf s' = conf s"
  proof (cases "ResampleFloat64_st (Slice a n) s")
    case (Inr p)
    obtain res s' where p: "p = (res, s')" by (cases p)
    from ResampleFloat64_keeps [OF Inr [unfolded p] order_refl] assms
    have "mem s' a = mem s a" "conf s' = conf s" by (auto simp: keeps_def)
    with Inr p show ?thesis by simp
  qed simp
  show "case ResampleInt16_st (Slice a n) s of
            Inl e \<Rightarrow> True
          | Inr (res, s') \<Rightarrow>
              contents16 s' (Slice a n) = contents16 s (Slice a n) \<and>
              mem16 s' a = mem16 s a \<and> conf s' = conf s"
  proof (cases "ResampleInt16_st (Slice a n) s")
    case (Inr p)
    obtain res s' where p: "p = (res, s')" by (cases p)
    from ResampleInt16_keeps [OF Inr [unfolded p] order_refl] assms
    have "mem16 s' a = mem16 s a" "conf s' = conf s" by (auto simp: keeps_def)
    with Inr p show ?thesis by simp
  qed simp
qed

theorem entry_points_frame_witness:
  "0 < brk example_store \<and> 1 < brk example_store \<and>
   (case ResampleFloat64_st (Slice 0 1) example_store of
      Inl e \<Rightarrow> False
    | Inr (res, s') \<Rightarrow>
        contents s' res = [Num 0, Num 0] \<and>
        contents s' (Slice 0 1) = [Num 1] \<and> conf s' = conf example_store) \<and>
   (case ResampleInt16_st (Slice 1 1) example_store of
      Inl e \<Rightarrow> False
    | Inr (res, s') \<Rightarrow>
        contents16 s' res = [0, 0] \<and>
        contents16 s' (Slice 1 1) = [16384] \<and> conf s' = conf example_store)"
proof -
  have b: "0 < brk example_store" "1 < brk example_store"
    by (simp_all add: example_store_def)
  have c0: "contents example_store (Slice 0 1) = [Num 1]"
    by (simp add: example_store_def)
  have c1: "contents16 example_store (Slice 1 1) = [16384]"
    by (simp add: example_store_def)
  have r0: "case ResampleFloat64_st (Slice 0 1) example_store of
      Inl e \<Rightarrow> False | Inr (res, s') \<Rightarrow> contents s' res = [Num 0, Num 0]"
    by code_simp
  have r1: "case ResampleInt16_st (Slice 1 1) example_store of
      Inl e \<Rightarrow> False | Inr (res, s') \<Rightarrow> contents16 s' res = [0, 0]"
    by code_simp
  from entry_points_frame [OF b(1), of 1] r0 c0
  have f0: "case ResampleFloat64_st (Slice 0 1) example_store of
      Inl e \<Rightarrow> False
    | Inr (res, s') \<Rightarrow>
        contents s' res = [Num 0, Num 0] \<and>
        contents s' (Slice 0 1) = [Num 1] \<and> conf s' = conf example_store"
    by (cases "ResampleFloat64_st (Slice 0 1) example_store") auto
  from entry_points_frame [OF b(2), of 1] r1 c1
  have f1: "case ResampleInt16_st (Slice 1 1) example_store of
      Inl e \<Rightarrow> False
    | Inr (res, s') \<Rightarrow>
        contents16 s' res = [0, 0] \<and>
        contents16 s' (Slice 1 1) = [16384] \<and> conf s' = conf example_store"
    by (cases "ResampleInt16_st (Slice 1 1) example_store") auto
  from b f0 f1 show ?thesis by simp
qed

end
